theory Spec2Isabelle
  imports Complex_Main
begin

section \<open>Disaster response pipeline: ETL (process\_data.py) and training (train\_classifier.py)\<close>

text \<open>
  Python strings are modelled as \<open>string\<close>: a character is a code point from 0 to 255, and
  the character classes below are those of Python on that range. Exceptions are values of
  \<open>error\<close>, and a function that can raise returns \<open>error + 'a\<close> with \<open>Inl\<close> for the
  exception.
\<close>

datatype error = IndexError | AttributeError | ValueError | KeyError

subsection \<open>Python string operations used by both scripts\<close>

definition is_space :: "char \<Rightarrow> bool" where
  \<comment> \<open>the characters that \<open>str.strip()\<close> removes and \<open>str.split()\<close> splits at: tab, LF, VT, FF,
      CR, FS, GS, RS, US, space, NEL (133) and the no-break space (160)\<close>
  "is_space c = (let n = (of_char c :: nat) in
                   (9 \<le> n \<and> n \<le> 13) \<or> (28 \<le> n \<and> n \<le> 32) \<or> n = 133 \<or> n = 160)"

definition blank :: "string \<Rightarrow> bool" where
  \<comment> \<open>a text of whitespace only, the empty text included\<close>
  "blank s = list_all is_space s"

definition str_strip :: "string \<Rightarrow> string" where
  "str_strip s = rev (dropWhile is_space (rev (dropWhile is_space s)))"

definition char_lower :: "char \<Rightarrow> char" where
  \<comment> \<open>the capitals are A to Z and, among the Latin-1 letters, 192 to 222 without the
      multiplication sign 215; the small letter is 32 further on\<close>
  "char_lower c = (let n = (of_char c :: nat) in
                     if (65 \<le> n \<and> n \<le> 90) \<or> (192 \<le> n \<and> n \<le> 222 \<and> n \<noteq> 215)
                     then char_of (n + 32) else c)"

definition str_lower :: "string \<Rightarrow> string" where
  "str_lower s = map char_lower s"

text \<open>
  \<open>s.split(sep)\<close> for a one-character separator: the fields between the separators, so
  that \<open>''''.split(';')\<close> is \<open>['''']\<close> and \<open>''a;''\<close> gives \<open>[''a'', '''']\<close>.
\<close>

fun str_split :: "char \<Rightarrow> string \<Rightarrow> string list" where
  "str_split sep [] = [[]]"
| "str_split sep (c # cs) =
     (if c = sep then [] # str_split sep cs
      else (case str_split sep cs of
              [] \<Rightarrow> [[c]]
            | w # ws \<Rightarrow> (c # w) # ws))"

text \<open>
  \<open>s.replace(old, new)\<close>: every non-overlapping occurrence of \<open>old\<close>, found from the
  left, is replaced. For the empty \<open>old\<close> Python puts \<open>new\<close> before every character and
  at the end.
\<close>

definition starts_with :: "string \<Rightarrow> string \<Rightarrow> bool" where
  "starts_with old s = (take (length old) s = old)"

fun replace_from :: "nat \<Rightarrow> string \<Rightarrow> string \<Rightarrow> string \<Rightarrow> string" where
  \<comment> \<open>the first argument counts the characters of the occurrence just replaced that are still
      to be passed over\<close>
  "replace_from k old new [] = []"
| "replace_from (Suc k) old new (c # cs) = replace_from k old new cs"
| "replace_from 0 old new (c # cs) =
     (if starts_with old (c # cs) then new @ replace_from (length old - 1) old new cs
      else c # replace_from 0 old new cs)"

definition str_replace :: "string \<Rightarrow> string \<Rightarrow> string \<Rightarrow> string" where
  "str_replace old new s =
     (if old = [] then new @ concat (map (\<lambda>c. c # new) s)
      else replace_from 0 old new s)"

subsection \<open>process\_data.py: \<open>clean_data\<close>\<close>

text \<open>
  The merged frame that \<open>load_data\<close> hands to \<open>clean_data\<close> has a fresh range index, so
  it is the list of its rows. A row is the pair of its cells outside the \<open>categories\<close>
  column (id, message, original, genre in the project's data; kept abstract as \<open>'a\<close>) and its
  \<open>categories\<close> cell, which the left join leaves missing (\<open>None\<close>) for a message without
  a categories record.
\<close>

type_synonym 'a merged = "('a \<times> string option) list"

record 'a cleaned =
  columns :: "string list"
  rows :: "('a \<times> int list) list"

text \<open>
  \<open>df['categories'].str.split(';', expand=True)\<close>: one column per field, as many columns
  as the longest row has fields (one column when every cell is missing), shorter rows
  padded with missing values; a missing cell gives a row of missing values.
\<close>

definition expand_width :: "string option list \<Rightarrow> nat" where
  "expand_width cells =
     foldr max (map (\<lambda>cell. case cell of None \<Rightarrow> 0 | Some s \<Rightarrow> length (str_split (CHR '';'') s)) cells) 1"

definition split_expand :: "string option list \<Rightarrow> string option list list" where
  "split_expand cells =
     map (\<lambda>cell. case cell of
                   None \<Rightarrow> replicate (expand_width cells) None
                 | Some s \<Rightarrow> map Some (str_split (CHR '';'') s)
                            @ replicate (expand_width cells - length (str_split (CHR '';'') s)) None)
         cells"

text \<open>
  Lines 52-54: the column names come from the first row. \<open>tolist()[0]\<close> raises IndexError on
  a frame without rows, and \<open>s.replace\<close> raises AttributeError on a missing value.
\<close>

definition strip_suffixes :: "string \<Rightarrow> string" where
  "strip_suffixes s = str_replace ''-0'' '''' (str_replace ''-1'' '''' (str_replace ''-2'' '''' s))"

fun colnames_of :: "string option list \<Rightarrow> error + string list" where
  "colnames_of [] = Inr []"
| "colnames_of (None # cs) = Inl AttributeError"
| "colnames_of (Some s # cs) =
     (case colnames_of cs of Inl e \<Rightarrow> Inl e | Inr ns \<Rightarrow> Inr (strip_suffixes s # ns))"

definition category_colnames :: "string option list list \<Rightarrow> error + string list" where
  "category_colnames categories =
     (case categories of [] \<Rightarrow> Inl IndexError | row # _ \<Rightarrow> colnames_of row)"

text \<open>
  Lines 58-60, one cell: \<open>.str.strip()\<close> and \<open>.str[-1]\<close> keep a missing value missing,
  and \<open>.str[-1]\<close> of the empty string is missing too; \<open>astype(int)\<close> then converts the
  one-character string with \<open>int\<close>, which raises ValueError on a missing value and on a
  character that is not a digit.
\<close>

definition str_last :: "string option \<Rightarrow> char option" where
  \<comment> \<open>the one-character string \<open>s[-1]\<close>, as its character\<close>
  "str_last cell = (case cell of None \<Rightarrow> None | Some s \<Rightarrow> (if s = [] then None else Some (last s)))"

definition is_digit :: "char \<Rightarrow> bool" where
  "is_digit c = (let n = (of_char c :: nat) in 48 \<le> n \<and> n \<le> 57)"

definition digit_value :: "char \<Rightarrow> int" where
  "digit_value c = int (of_char c) - 48"

definition to_int :: "char option \<Rightarrow> error + int" where
  "to_int cell =
     (case cell of
        None \<Rightarrow> Inl ValueError
      | Some c \<Rightarrow> if is_digit c then Inr (digit_value c) else Inl ValueError)"

definition parse_category_value :: "string option \<Rightarrow> error + int" where
  "parse_category_value cell = to_int (str_last (map_option str_strip cell))"

fun astype_int :: "string option list \<Rightarrow> error + int list" where
  "astype_int [] = Inr []"
| "astype_int (cell # cells) =
     (case parse_category_value cell of
        Inl e \<Rightarrow> Inl e
      | Inr v \<Rightarrow> (case astype_int cells of Inl e \<Rightarrow> Inl e | Inr vs \<Rightarrow> Inr (v # vs)))"

text \<open>
  The loop \<open>for column in categories\<close> visits the column labels in order. A label that
  occurs twice makes \<open>categories[column]\<close> a frame, whose \<open>.str\<close> raises AttributeError.
\<close>

fun convert_columns :: "string list \<Rightarrow> (string \<times> string option list) list \<Rightarrow> error + int list list" where
  "convert_columns names [] = Inr []"
| "convert_columns names ((column, cells) # rest) =
     (if count_list names column \<noteq> 1 then Inl AttributeError
      else (case astype_int cells of
              Inl e \<Rightarrow> Inl e
            | Inr vs \<Rightarrow> (case convert_columns names rest of
                          Inl e \<Rightarrow> Inl e
                        | Inr cols \<Rightarrow> Inr (vs # cols))))"

definition replace_2_1 :: "int \<Rightarrow> int" where
  \<comment> \<open>line 63: \<open>categories.replace(to_replace=2, value=1)\<close>\<close>
  "replace_2_1 v = (if v = 2 then 1 else v)"

text \<open>\<open>drop_duplicates()\<close> keeps the first of the rows that are equal.\<close>

fun drop_duplicates_from :: "'r list \<Rightarrow> 'r list \<Rightarrow> 'r list" where
  "drop_duplicates_from seen [] = []"
| "drop_duplicates_from seen (r # rs) =
     (if r \<in> set seen then drop_duplicates_from seen rs
      else r # drop_duplicates_from (r # seen) rs)"

definition drop_duplicates :: "'r list \<Rightarrow> 'r list" where
  "drop_duplicates rs = drop_duplicates_from [] rs"

definition drop_label :: "string \<Rightarrow> string list \<Rightarrow> 'v list \<Rightarrow> 'v list" where
  \<comment> \<open>the cells of a row whose column label is not the dropped one\<close>
  "drop_label l names vs = map snd (filter (\<lambda>(n, v). n \<noteq> l) (zip names vs))"

text \<open>
  Lines 51-71: the frame after the category columns have replaced the \<open>categories\<close> column
  and the duplicates are removed, with the labels of the category columns.
\<close>

definition deduplicated :: "'a merged \<Rightarrow> error + (string list \<times> ('a \<times> int list) list)" where
  "deduplicated df =
     (let categories = split_expand (map snd df) in
      case category_colnames categories of
        Inl e \<Rightarrow> Inl e
      | Inr names \<Rightarrow>
          (case convert_columns names
                  (map (\<lambda>j. (names ! j, map (\<lambda>r. r ! j) categories)) [0..<length names]) of
             Inl e \<Rightarrow> Inl e
           | Inr cols \<Rightarrow>
               Inr (names,
                    drop_duplicates
                      (map (\<lambda>i. (fst (df ! i), map (\<lambda>c. replace_2_1 (c ! i)) cols))
                           [0..<length df]))))"

definition clean_data :: "'a merged \<Rightarrow> error + 'a cleaned" where
  "clean_data df =
     (case deduplicated df of
        Inl e \<Rightarrow> Inl e
      | Inr (names, rs) \<Rightarrow>
          if ''child_alone'' \<notin> set names then Inl KeyError
          else Inr \<lparr>columns = filter (\<lambda>n. n \<noteq> ''child_alone'') names,
                    rows = map (\<lambda>(other, vs). (other, drop_label ''child_alone'' names vs)) rs\<rparr>)"

definition select_label :: "string \<Rightarrow> string list \<Rightarrow> 'v list \<Rightarrow> 'v list" where
  \<comment> \<open>the cells of a row under a column label, as \<open>df[l]\<close> selects them\<close>
  "select_label l names vs = map snd (filter (\<lambda>(n, v). n = l) (zip names vs))"

definition cell_fields :: "string option \<Rightarrow> string list" where
  \<comment> \<open>the fields of one \<open>categories\<close> cell, none for a missing cell\<close>
  "cell_fields cell = (case cell of None \<Rightarrow> [] | Some s \<Rightarrow> str_split (CHR '';'') s)"

subsection \<open>process\_data.py and train\_classifier.py: the SQLite store\<close>











subsection \<open>train\_classifier.py: \<open>tokenize\<close>\<close>

text \<open>
  The pattern \<^verbatim>\<open>http[s]?://(?:[a-zA-Z]|[0-9]|[$-_@.&+]|[!*\(\),]|(?:%[0-9a-fA-F][0-9a-fA-F]))+\<close>.
  The third alternative holds the range from \<open>$\<close> (36) to \<open>_\<close> (95). \<open>url_alt\<close> is the
  number of characters that the first alternative matching at the start of the text
  consumes, 0 when none matches.
\<close>

definition is_letter :: "char \<Rightarrow> bool" where
  "is_letter c = (let n = (of_char c :: nat) in (97 \<le> n \<and> n \<le> 122) \<or> (65 \<le> n \<and> n \<le> 90))"

definition is_class3 :: "char \<Rightarrow> bool" where
  "is_class3 c = (let n = (of_char c :: nat) in (36 \<le> n \<and> n \<le> 95) \<or> c \<in> set ''@.&+'')"

definition is_class4 :: "char \<Rightarrow> bool" where
  "is_class4 c = (c \<in> set ''!*(),'')"

definition is_hex :: "char \<Rightarrow> bool" where
  "is_hex c = (let n = (of_char c :: nat) in
                 (48 \<le> n \<and> n \<le> 57) \<or> (97 \<le> n \<and> n \<le> 102) \<or> (65 \<le> n \<and> n \<le> 70))"

fun url_alt :: "string \<Rightarrow> nat" where
  "url_alt [] = 0"
| "url_alt (c # cs) =
     (if is_letter c then 1
      else if is_digit c then 1
      else if is_class3 c then 1
      else if is_class4 c then 1
      else (case cs of
              h1 # h2 # _ \<Rightarrow> if c = CHR ''%'' \<and> is_hex h1 \<and> is_hex h2 then 3 else 0
            | _ \<Rightarrow> 0))"

text \<open>
  The greedy repetition \<open>(...)+\<close> ends the pattern, so it takes alternatives as long as
  one matches and never gives characters back. \<open>url_group_from k s\<close> is the length it
  matches, \<open>k\<close> characters of the current alternative being still to consume; 0 is no match.
\<close>

fun url_group_from :: "nat \<Rightarrow> string \<Rightarrow> nat" where
  "url_group_from k [] = 0"
| "url_group_from (Suc k) (c # cs) = Suc (url_group_from k cs)"
| "url_group_from 0 (c # cs) =
     (case url_alt (c # cs) of 0 \<Rightarrow> 0 | Suc k \<Rightarrow> Suc (url_group_from k cs))"

definition match_after_scheme :: "string \<Rightarrow> nat option" where
  \<comment> \<open>the length matched by \<open>://(...)+\<close> at the start of the text\<close>
  "match_after_scheme s =
     (if starts_with ''://'' s
      then (let n = url_group_from 0 (drop 3 s) in if n = 0 then None else Some (3 + n))
      else None)"

definition url_match :: "string \<Rightarrow> nat option" where
  \<comment> \<open>the length of the match of the pattern at the start of the text; \<open>[s]?\<close> tries the
      \<open>s\<close> first and falls back to the empty match\<close>
  "url_match s =
     (if starts_with ''http'' s
      then (case (if starts_with ''s'' (drop 4 s) then match_after_scheme (drop 5 s) else None) of
              Some n \<Rightarrow> Some (5 + n)
            | None \<Rightarrow> (case match_after_scheme (drop 4 s) of
                         Some n \<Rightarrow> Some (4 + n)
                       | None \<Rightarrow> None))
      else None)"

text \<open>
  \<open>re.findall\<close> scans from the left: a match is collected and the scan goes on behind it,
  otherwise it moves one character on. The first argument of \<open>findall_from\<close> counts the
  characters of the last match that are still to be passed over.
\<close>

fun findall_from :: "nat \<Rightarrow> string \<Rightarrow> string list" where
  "findall_from k [] = []"
| "findall_from (Suc k) (c # cs) = findall_from k cs"
| "findall_from 0 (c # cs) =
     (case url_match (c # cs) of
        None \<Rightarrow> findall_from 0 cs
      | Some n \<Rightarrow> take n (c # cs) # findall_from (n - 1) cs)"

definition findall_url :: "string \<Rightarrow> string list" where
  "findall_url text = findall_from 0 text"

fun replace_urls :: "string list \<Rightarrow> string \<Rightarrow> string \<Rightarrow> string" where
  \<comment> \<open>lines 78-79: \<open>for detect_url in detect_urls: text = text.replace(detect_url, url_placeholder)\<close>\<close>
  "replace_urls [] url_placeholder text = text"
| "replace_urls (detect_url # rest) url_placeholder text =
     replace_urls rest url_placeholder (str_replace detect_url url_placeholder text)"

text \<open>
  The NLTK functions that the script calls are parameters of the model: the sentence
  splitter, the word tokenizer, the WordNet lemmatizer and the part-of-speech tagger.
\<close>

record nltk =
  sent_tokenize :: "string \<Rightarrow> string list"
  word_tokenize :: "string \<Rightarrow> string list"
  lemmatize :: "string \<Rightarrow> string"
  pos_tag :: "string list \<Rightarrow> (string \<times> string) list"

definition tokenize :: "nltk \<Rightarrow> string \<Rightarrow> string \<Rightarrow> string list" where
  "tokenize nl text url_placeholder =
     (let detect_urls = findall_url text;
          text' = replace_urls detect_urls url_placeholder text;
          tokens = word_tokenize nl text'
      in map (\<lambda>w. str_strip (str_lower (lemmatize nl w))) tokens)"

definition default_url_placeholder :: string where
  \<comment> \<open>the default of the second parameter, which no call in the script overrides\<close>
  "default_url_placeholder = ''urlplaceholder''"

text \<open>
  What the specification asks of step (2) of the tokenizer, in its words: every substring
  that the scan of the URL pattern matches is replaced by the placeholder.
\<close>

fun spec_sub_from :: "nat \<Rightarrow> string \<Rightarrow> string \<Rightarrow> string" where
  "spec_sub_from k url_placeholder [] = []"
| "spec_sub_from (Suc k) url_placeholder (c # cs) = spec_sub_from k url_placeholder cs"
| "spec_sub_from 0 url_placeholder (c # cs) =
     (case url_match (c # cs) of
        None \<Rightarrow> c # spec_sub_from 0 url_placeholder cs
      | Some n \<Rightarrow> url_placeholder @ spec_sub_from (n - 1) url_placeholder cs)"

definition spec_replace_every_url :: "string \<Rightarrow> string \<Rightarrow> string" where
  "spec_replace_every_url url_placeholder text = spec_sub_from 0 url_placeholder text"

subsection \<open>train\_classifier.py: \<open>StartingVerbExtractor\<close>\<close>

text \<open>
  \<open>starting_verb\<close> visits the sentences in order; \<open>pos_tags[0]\<close> raises IndexError on an
  empty list of tagged tokens.
\<close>

fun starting_verb_loop :: "nltk \<Rightarrow> string list \<Rightarrow> error + bool" where
  "starting_verb_loop nl [] = Inr False"
| "starting_verb_loop nl (sentence # rest) =
     (case pos_tag nl (tokenize nl sentence default_url_placeholder) of
        [] \<Rightarrow> Inl IndexError
      | (first_word, first_tag) # _ \<Rightarrow>
          if first_tag \<in> set [''VB'', ''VBP''] \<or> first_word = ''RT'' then Inr True
          else starting_verb_loop nl rest)"

definition starting_verb :: "nltk \<Rightarrow> string \<Rightarrow> error + bool" where
  "starting_verb nl text = starting_verb_loop nl (sent_tokenize nl text)"

fun transform :: "nltk \<Rightarrow> string list \<Rightarrow> error + bool list" where
  \<comment> \<open>\<open>pd.Series(X).apply(self.starting_verb)\<close>\<close>
  "transform nl [] = Inr []"
| "transform nl (text # X) =
     (case starting_verb nl text of
        Inl e \<Rightarrow> Inl e
      | Inr b \<Rightarrow> (case transform nl X of Inl e \<Rightarrow> Inl e | Inr bs \<Rightarrow> Inr (b # bs)))"

text \<open>
  The feature as the specification words it: decided by the first sentence alone.
\<close>

definition starts_with_verb :: "(string \<times> string) list \<Rightarrow> bool" where
  "starts_with_verb pos_tags =
     (case pos_tags of
        [] \<Rightarrow> False
      | (first_word, first_tag) # _ \<Rightarrow> first_tag \<in> set [''VB'', ''VBP''] \<or> first_word = ''RT'')"

definition spec_first_sentence_only :: "nltk \<Rightarrow> string \<Rightarrow> error + bool" where
  "spec_first_sentence_only nl text =
     (case sent_tokenize nl text of
        [] \<Rightarrow> Inr False
      | sentence # _ \<Rightarrow> Inr (starts_with_verb (pos_tag nl (tokenize nl sentence default_url_placeholder))))"

text \<open>
  A small instance of the NLTK interface, for running the definitions on concrete
  messages. A sentence ends at a full stop, and a blank rest is no sentence; words are
  separated by whitespace; the lemmatizer changes nothing; the tagger knows the verb
  \<open>send\<close>. The first argument of \<open>toy_sentences\<close> and of \<open>toy_words\<close> is the part of the
  current sentence or word read so far, last character first.
\<close>

fun toy_sentences :: "string \<Rightarrow> string \<Rightarrow> string list" where
  "toy_sentences acc [] = (if blank acc then [] else [rev acc])"
| "toy_sentences acc (c # cs) =
     (if c = CHR ''.'' then rev (c # acc) # toy_sentences [] cs
      else toy_sentences (c # acc) cs)"

fun toy_words :: "string \<Rightarrow> string \<Rightarrow> string list" where
  "toy_words acc [] = (if acc = [] then [] else [rev acc])"
| "toy_words acc (c # cs) =
     (if is_space c then (if acc = [] then toy_words [] cs else rev acc # toy_words [] cs)
      else toy_words (c # acc) cs)"

definition toy_nltk :: nltk where
  "toy_nltk =
     \<lparr>sent_tokenize = toy_sentences [],
      word_tokenize = toy_words [],
      lemmatize = (\<lambda>w. w),
      pos_tag = map (\<lambda>w. (w, if w = ''send'' then ''VB'' else ''NN''))\<rparr>"

subsection \<open>train\_classifier.py: \<open>multioutput_fscore\<close>\<close>

text \<open>
  A two-dimensional array is its number of columns \<open>shape[1]\<close> and the list of its rows.
  \<open>a[:, column]\<close> raises IndexError for a column that the array does not have. The
  library functions \<open>fbeta_score\<close> (called with \<open>average = 'weighted'\<close>) and \<open>gmean\<close> are
  parameters, and scores are real numbers.
\<close>

record 'l ndarray =
  shape1 :: nat
  elems :: "'l list list"

definition well_shaped :: "'l ndarray \<Rightarrow> bool" where
  "well_shaped a = list_all (\<lambda>r. length r = shape1 a) (elems a)"

definition column_of :: "'l ndarray \<Rightarrow> nat \<Rightarrow> error + 'l list" where
  "column_of a column =
     (if column < shape1 a then Inr (map (\<lambda>r. r ! column) (elems a)) else Inl IndexError)"

fun score_columns ::
  "('l list \<Rightarrow> 'l list \<Rightarrow> real \<Rightarrow> real) \<Rightarrow> 'l ndarray \<Rightarrow> 'l ndarray \<Rightarrow> real \<Rightarrow> nat list
     \<Rightarrow> error + real list" where
  "score_columns fbeta_score y_actual y_estimators beta [] = Inr []"
| "score_columns fbeta_score y_actual y_estimators beta (column # rest) =
     (case column_of y_actual column of
        Inl e \<Rightarrow> Inl e
      | Inr a \<Rightarrow>
          (case column_of y_estimators column of
             Inl e \<Rightarrow> Inl e
           | Inr p \<Rightarrow>
               (case score_columns fbeta_score y_actual y_estimators beta rest of
                  Inl e \<Rightarrow> Inl e
                | Inr f1score_list \<Rightarrow> Inr (fbeta_score a p beta # f1score_list))))"

definition multioutput_fscore ::
  "('l list \<Rightarrow> 'l list \<Rightarrow> real \<Rightarrow> real) \<Rightarrow> (real list \<Rightarrow> 'r) \<Rightarrow> 'l ndarray \<Rightarrow> 'l ndarray \<Rightarrow> real
     \<Rightarrow> error + 'r" where
  "multioutput_fscore fbeta_score gmean y_actual y_estimators beta =
     (case score_columns fbeta_score y_actual y_estimators beta [0..<shape1 y_actual] of
        Inl e \<Rightarrow> Inl e
      | Inr f1score_list \<Rightarrow> Inr (gmean (filter (\<lambda>score. score < 1) f1score_list)))"

section \<open>Properties\<close>

subsection \<open>\<open>clean_data\<close>: removing duplicates, converting the category cells\<close>

lemma set_drop_duplicates_from: "set (drop_duplicates_from seen rs) = set rs - set seen"
  by (induction rs arbitrary: seen) auto

lemma distinct_drop_duplicates_from: "distinct (drop_duplicates_from seen rs)"
  by (induction rs arbitrary: seen) (auto simp: set_drop_duplicates_from)

lemma length_drop_duplicates_from: "length (drop_duplicates_from seen rs) \<le> length rs"
  by (induction rs arbitrary: seen) (auto simp: le_SucI)

lemma parse_category_value_None: "parse_category_value None = Inl ValueError"
  by (simp add: parse_category_value_def str_last_def to_int_def)

lemma parse_category_value_Some:
  "parse_category_value (Some f) =
     (if str_strip f \<noteq> [] \<and> is_digit (last (str_strip f))
      then Inr (digit_value (last (str_strip f))) else Inl ValueError)"
  by (simp add: parse_category_value_def str_last_def to_int_def)

lemma parse_category_value_error: "parse_category_value cell = Inl e \<Longrightarrow> e = ValueError"
  by (cases cell) (auto simp: parse_category_value_None parse_category_value_Some split: if_splits)

lemma astype_int_Inr:
  "astype_int cells = Inr vs \<Longrightarrow> list_all2 (\<lambda>c v. parse_category_value c = Inr v) cells vs"
  by (induction cells arbitrary: vs) (auto split: sum.splits)

lemma astype_int_Inl: "astype_int cells = Inl e \<Longrightarrow> e = ValueError"
  by (induction cells) (auto split: sum.splits dest: parse_category_value_error)

lemma convert_columns_Inr:
  "convert_columns names pcs = Inr cols \<Longrightarrow>
     list_all2 (\<lambda>(n, cells) vs. astype_int cells = Inr vs) pcs cols"
  by (induction names pcs arbitrary: cols rule: convert_columns.induct)
     (auto split: sum.splits if_splits)

lemma convert_columns_Inl:
  "convert_columns names pcs = Inl e \<Longrightarrow> \<forall>(n, cells) \<in> set pcs. count_list names n = 1 \<Longrightarrow> e = ValueError"
  by (induction names pcs rule: convert_columns.induct)
     (auto split: sum.splits if_splits dest: astype_int_Inl)

lemma colnames_of_length: "colnames_of row = Inr ns \<Longrightarrow> length ns = length row \<and> None \<notin> set row"
  by (induction row arbitrary: ns rule: colnames_of.induct) (auto split: sum.splits)

lemma foldr_max_ge: "x \<in> set xs \<Longrightarrow> x \<le> foldr max xs (b::nat)"
  by (induction xs) (auto simp: max_def)

lemma foldr_max_ge_init: "b \<le> foldr max xs (b::nat)"
  by (induction xs) (auto simp: max_def)

lemma expand_width_ge:
  "Some s \<in> set cells \<Longrightarrow> length (str_split (CHR '';'') s) \<le> expand_width cells"
  unfolding expand_width_def by (rule foldr_max_ge) force

lemma expand_width_pos: "1 \<le> expand_width cells"
  unfolding expand_width_def by (rule foldr_max_ge_init)

lemma split_expand_length: "length (split_expand cells) = length cells"
  by (simp add: split_expand_def)

lemma split_expand_row_length:
  assumes "i < length cells"
  shows "length (split_expand cells ! i) = expand_width cells"
proof (cases "cells ! i")
  case None
  with assms show ?thesis by (simp add: split_expand_def)
next
  case (Some s)
  with assms have "Some s \<in> set cells" by (metis nth_mem)
  then have "length (str_split (CHR '';'') s) \<le> expand_width cells" by (rule expand_width_ge)
  with assms Some show ?thesis by (simp add: split_expand_def)
qed

lemma split_expand_all_present:
  assumes i: "i < length cells"
    and ok: "\<forall>j<expand_width cells. split_expand cells ! i ! j \<noteq> None"
  shows "\<exists>s. cells ! i = Some s \<and> split_expand cells ! i = map Some (str_split (CHR '';'') s)"
proof (cases "cells ! i")
  case None
  with i have "split_expand cells ! i ! 0 = None"
    using expand_width_pos [of cells] by (simp add: split_expand_def)
  with ok expand_width_pos [of cells] show ?thesis by (metis less_eq_Suc_le One_nat_def)
next
  case (Some s)
  let ?fs = "str_split (CHR '';'') s"
  from i Some have "Some s \<in> set cells" by (metis nth_mem)
  then have le: "length ?fs \<le> expand_width cells" by (rule expand_width_ge)
  have row: "split_expand cells ! i = map Some ?fs @ replicate (expand_width cells - length ?fs) None"
    using i Some by (simp add: split_expand_def)
  have "length ?fs = expand_width cells"
  proof (rule ccontr)
    assume "length ?fs \<noteq> expand_width cells"
    with le have lt: "length ?fs < expand_width cells" by simp
    then have "split_expand cells ! i ! length ?fs = None"
      by (simp add: row nth_append)
    with ok lt show False by blast
  qed
  with row Some show ?thesis by simp
qed

lemma convert_columns_labels:
  "convert_columns names pcs = Inr cols \<Longrightarrow> \<forall>(n, cells) \<in> set pcs. count_list names n = 1"
  by (induction names pcs arbitrary: cols rule: convert_columns.induct)
     (auto split: sum.splits if_splits)

lemma count_list_1_distinct: "\<forall>n \<in> set ns. count_list ns n = 1 \<Longrightarrow> distinct ns"
proof (induction ns)
  case Nil
  then show ?case by simp
next
  case (Cons x xs)
  from Cons.prems have "count_list xs x = 0" by simp
  then have x: "x \<notin> set xs" by (simp add: count_list_0_iff)
  have "\<forall>n \<in> set xs. count_list xs n = 1"
  proof
    fix n assume n: "n \<in> set xs"
    with x have "n \<noteq> x" by auto
    with Cons.prems n show "count_list xs n = 1" by (auto split: if_splits)
  qed
  with Cons.IH x show ?case by simp
qed

lemma category_colnames_Inr:
  assumes "category_colnames (split_expand cells) = Inr names"
  shows "cells \<noteq> [] \<and> length names = expand_width cells"
proof -
  from assms obtain row rest where sp: "split_expand cells = row # rest" and cn: "colnames_of row = Inr names"
    by (auto simp: category_colnames_def split: list.splits)
  from sp have ne: "cells \<noteq> []" by (auto simp: split_expand_def)
  then have "0 < length cells" by simp
  then have "length (split_expand cells ! 0) = expand_width cells" by (rule split_expand_row_length)
  with sp cn ne show ?thesis by (simp add: colnames_of_length)
qed

lemma deduplicated_Inr:
  assumes "deduplicated df = Inr (names, rs)"
  shows "\<exists>cols. length cols = length names \<and> distinct names
           \<and> rs = drop_duplicates
                    (map (\<lambda>i. (fst (df ! i), map (\<lambda>c. replace_2_1 (c ! i)) cols)) [0..<length df])
           \<and> (\<forall>i<length df. \<exists>s. snd (df ! i) = Some s
                 \<and> length (str_split (CHR '';'') s) = length names
                 \<and> (\<forall>j<length names.
                        parse_category_value (Some (str_split (CHR '';'') s ! j)) = Inr (cols ! j ! i)))"
proof -
  let ?cells = "map snd df"
  let ?cats = "split_expand ?cells"
  let ?W = "expand_width ?cells"
  from assms obtain cols where
    cn: "category_colnames ?cats = Inr names" and
    cc: "convert_columns names (map (\<lambda>j. (names ! j, map (\<lambda>r. r ! j) ?cats)) [0..<length names]) = Inr cols" and
    rs: "rs = drop_duplicates (map (\<lambda>i. (fst (df ! i), map (\<lambda>c. replace_2_1 (c ! i)) cols)) [0..<length df])"
    by (auto simp: deduplicated_def Let_def split: sum.splits)
  from cn have W: "length names = ?W" by (simp add: category_colnames_Inr)
  from cc have all2: "list_all2 (\<lambda>(n, cells) vs. astype_int cells = Inr vs)
      (map (\<lambda>j. (names ! j, map (\<lambda>r. r ! j) ?cats)) [0..<length names]) cols"
    by (rule convert_columns_Inr)
  then have len: "length cols = length names"
    by (auto dest: list_all2_lengthD)
  have col: "astype_int (map (\<lambda>r. r ! j) ?cats) = Inr (cols ! j)" if "j < length names" for j
    using list_all2_nthD [OF all2, of j] that by simp
  have cell: "parse_category_value (?cats ! i ! j) = Inr (cols ! j ! i)"
    if "j < length names" "i < length df" for i j
  proof -
    from col [OF that(1)] have "list_all2 (\<lambda>c v. parse_category_value c = Inr v) (map (\<lambda>r. r ! j) ?cats) (cols ! j)"
      by (rule astype_int_Inr)
    from list_all2_nthD [OF this, of i] that(2) show ?thesis
      by (simp add: split_expand_length)
  qed
  from convert_columns_labels [OF cc] have "\<forall>n \<in> set names. count_list names n = 1"
    by (auto simp: in_set_conv_nth)
  then have dist: "distinct names" by (rule count_list_1_distinct)
  have row: "\<exists>s. snd (df ! i) = Some s
                 \<and> length (str_split (CHR '';'') s) = length names
                 \<and> (\<forall>j<length names.
                        parse_category_value (Some (str_split (CHR '';'') s ! j)) = Inr (cols ! j ! i))"
    if i: "i < length df" for i
  proof -
    have "\<forall>j<?W. ?cats ! i ! j \<noteq> None"
    proof (intro allI impI)
      fix j assume "j < ?W"
      with W i have "parse_category_value (?cats ! i ! j) = Inr (cols ! j ! i)" by (simp add: cell)
      then show "?cats ! i ! j \<noteq> None" by (cases "?cats ! i ! j") (simp_all add: parse_category_value_None)
    qed
    with i obtain s where s: "?cells ! i = Some s" and r: "?cats ! i = map Some (str_split (CHR '';'') s)"
      using split_expand_all_present [of i ?cells] by auto
    have "length (?cats ! i) = ?W" using i by (simp add: split_expand_row_length)
    with r W have l: "length (str_split (CHR '';'') s) = length names" by simp
    have "parse_category_value (Some (str_split (CHR '';'') s ! j)) = Inr (cols ! j ! i)"
      if "j < length names" for j
      using cell [OF that i] r l that by simp
    with s l i show ?thesis by simp
  qed
  from len dist rs row show ?thesis by blast
qed

lemma colnames_of_Inl: "colnames_of row = Inl e \<Longrightarrow> e = AttributeError"
  by (induction row rule: colnames_of.induct) (auto split: sum.splits)

lemma convert_columns_error:
  "convert_columns names pcs = Inl e \<Longrightarrow> e = ValueError \<or> e = AttributeError"
  by (induction names pcs rule: convert_columns.induct)
     (auto split: sum.splits if_splits dest: astype_int_Inl)

lemma distinct_count_list_1: "distinct ns \<Longrightarrow> n \<in> set ns \<Longrightarrow> count_list ns n = 1"
  by (induction ns) (auto simp: count_list_0_iff)

lemma deduplicated_error:
  assumes "deduplicated df = Inl e" and "df \<noteq> []"
  shows "e = ValueError \<or> e = AttributeError"
    and "category_colnames (split_expand (map snd df)) = Inr names \<Longrightarrow> distinct names \<Longrightarrow> e = ValueError"
proof -
  from assms(2) have ne: "split_expand (map snd df) \<noteq> []" by (simp add: split_expand_def)
  show "e = ValueError \<or> e = AttributeError"
    using assms(1) ne
    by (auto simp: deduplicated_def Let_def category_colnames_def split: sum.splits list.splits
             dest: colnames_of_Inl convert_columns_error)
  assume cn: "category_colnames (split_expand (map snd df)) = Inr names" and d: "distinct names"
  from assms(1) cn have
    "convert_columns names (map (\<lambda>j. (names ! j, map (\<lambda>r. r ! j) (split_expand (map snd df)))) [0..<length names]) = Inl e"
    by (auto simp: deduplicated_def Let_def split: sum.splits)
  moreover have "\<forall>(n, cells) \<in> set (map (\<lambda>j. (names ! j, map (\<lambda>r. r ! j) (split_expand (map snd df)))) [0..<length names]).
      count_list names n = 1"
    using d by (auto simp: distinct_count_list_1)
  ultimately show "e = ValueError" by (rule convert_columns_Inl)
qed

lemma deduplicated_bad_field:
  assumes row: "(other, Some s) \<in> set df" and f: "f \<in> set (str_split (CHR '';'') s)"
    and bad: "parse_category_value (Some f) = Inl ValueError"
  shows "\<exists>e. deduplicated df = Inl e"
proof (cases "deduplicated df")
  case (Inl e)
  then show ?thesis by blast
next
  case (Inr p)
  obtain names rs where p: "p = (names, rs)" by (cases p)
  from row obtain i where i: "i < length df" and dfi: "df ! i = (other, Some s)"
    by (auto simp: in_set_conv_nth)
  from f obtain j where j: "j < length (str_split (CHR '';'') s)" and fj: "str_split (CHR '';'') s ! j = f"
    by (auto simp: in_set_conv_nth)
  from deduplicated_Inr [OF Inr [unfolded p]] i dfi obtain cols where
    "length (str_split (CHR '';'') s) = length names"
    "\<forall>j<length names. parse_category_value (Some (str_split (CHR '';'') s ! j)) = Inr (cols ! j ! i)"
    by fastforce
  with j fj bad show ?thesis by auto
qed

lemma label_cells_eq:
  "length xs = length names \<Longrightarrow> length ys = length names \<Longrightarrow>
   drop_label l names xs = drop_label l names ys \<Longrightarrow>
   select_label l names xs = select_label l names ys \<Longrightarrow> xs = ys"
proof (induction names arbitrary: xs ys)
  case Nil
  then show ?case by simp
next
  case (Cons n names)
  then obtain x xs' y ys' where xs: "xs = x # xs'" and ys: "ys = y # ys'"
    by (metis length_Suc_conv)
  with Cons.prems show ?case
    by (cases "n = l") (auto simp: drop_label_def select_label_def intro: Cons.IH)
qed

lemma foldr_max_le: "\<forall>x \<in> set xs. x \<le> w \<Longrightarrow> b \<le> w \<Longrightarrow> foldr max xs (b::nat) \<le> w"
  by (induction xs) auto

lemma foldr_max_const:
  assumes "xs \<noteq> []" and "\<forall>x \<in> set xs. x = w" and "1 \<le> w"
  shows "foldr max xs (1::nat) = w"
proof (rule antisym)
  show "foldr max xs 1 \<le> w" using assms(2,3) by (intro foldr_max_le) auto
  from assms(1,2) have "w \<in> set xs" by (cases xs) auto
  then show "w \<le> foldr max xs 1" by (rule foldr_max_ge)
qed

lemma expand_width_const:
  assumes "\<forall>cell \<in> set cells. length (cell_fields cell) = w" and "1 \<le> w" and "cells \<noteq> []"
  shows "expand_width cells = w"
  unfolding expand_width_def
proof (rule foldr_max_const)
  show "map (\<lambda>cell. case cell of None \<Rightarrow> 0 | Some s \<Rightarrow> length (str_split (CHR '';'') s)) cells \<noteq> []"
    using assms(3) by simp
  show "\<forall>x\<in>set (map (\<lambda>cell. case cell of None \<Rightarrow> 0 | Some s \<Rightarrow> length (str_split (CHR '';'') s)) cells). x = w"
    using assms(1) by (auto simp: cell_fields_def split: option.splits)
qed (rule assms(2))

lemma split_expand_full:
  assumes "\<forall>cell \<in> set cells. cell \<noteq> None \<and> length (cell_fields cell) = w" and "1 \<le> w"
  shows "split_expand cells = map (\<lambda>cell. map Some (cell_fields cell)) cells"
proof (cases "cells = []")
  case True
  then show ?thesis by (simp add: split_expand_def)
next
  case False
  with assms have w: "expand_width cells = w" by (simp add: expand_width_const)
  show ?thesis
    unfolding split_expand_def w
    by (rule map_cong) (use assms(1) in \<open>auto simp: cell_fields_def split: option.splits\<close>)
qed

lemma colnames_of_present: "colnames_of (map Some fs) = Inr (map strip_suffixes fs)"
  by (induction fs) auto

lemma astype_int_values:
  "\<forall>cell \<in> set cells. parse_category_value cell = Inr (g cell) \<Longrightarrow>
   astype_int cells = Inr (map g cells)"
  by (induction cells) auto

lemma convert_columns_values:
  "\<forall>(n, cells) \<in> set pcs. count_list names n = 1
       \<and> (\<forall>cell \<in> set cells. parse_category_value cell = Inr (g cell)) \<Longrightarrow>
   convert_columns names pcs = Inr (map (\<lambda>(n, cells). map g cells) pcs)"
proof (induction pcs)
  case Nil
  then show ?case by simp
next
  case (Cons pc pcs)
  obtain n cells where pc: "pc = (n, cells)" by (cases pc)
  from Cons.prems pc have "astype_int cells = Inr (map g cells)"
    by (intro astype_int_values) auto
  moreover from Cons have "convert_columns names pcs = Inr (map (\<lambda>(n, cells). map g cells) pcs)"
    by simp
  ultimately show ?case using Cons.prems pc by simp
qed

lemma map_nth_all: "map (\<lambda>i. f (xs ! i)) [0..<length xs] = map f xs"
  by (rule nth_equalityI) auto

lemma str_split_nonempty: "str_split sep s \<noteq> []"
  by (induction s) (auto split: list.splits)

lemma category_colnames_first_row:
  assumes df: "df = (other0, Some s0) # rest"
    and names: "names = map strip_suffixes (str_split (CHR '';'') s0)"
    and rows: "\<forall>(other, cell) \<in> set df. \<exists>s. cell = Some s \<and> length (str_split (CHR '';'') s) = length names"
  shows "category_colnames (split_expand (map snd df)) = Inr names"
proof -
  have W1: "1 \<le> length names"
    using str_split_nonempty [of "CHR '';''" s0] by (cases "str_split (CHR '';'') s0") (auto simp: names)
  have "\<forall>cell \<in> set (map snd df). cell \<noteq> None \<and> length (cell_fields cell) = length names"
    using rows by (fastforce simp: cell_fields_def)
  then have "split_expand (map snd df) = map (\<lambda>cell. map Some (cell_fields cell)) (map snd df)"
    using W1 by (rule split_expand_full)
  moreover have "map (\<lambda>cell. map Some (cell_fields cell)) (map snd df)
      = map Some (str_split (CHR '';'') s0) # map (\<lambda>cell. map Some (cell_fields cell)) (map snd rest)"
    by (simp add: df cell_fields_def)
  ultimately show ?thesis
    by (simp add: category_colnames_def colnames_of_present names)
qed

text \<open>
  The frame before the column drop, when the first row names the columns, the names are
  distinct, every row has as many fields as the first, and every field ends in a digit.
\<close>

lemma deduplicated_values:
  assumes df: "df = (other0, Some s0) # rest"
    and names: "names = map strip_suffixes (str_split (CHR '';'') s0)" and dist: "distinct names"
    and rows: "\<forall>(other, cell) \<in> set df. \<exists>s. cell = Some s \<and> length (str_split (CHR '';'') s) = length names"
    and digits: "\<forall>(other, cell) \<in> set df. \<forall>f \<in> set (cell_fields cell).
                   str_strip f \<noteq> [] \<and> is_digit (last (str_strip f))"
  shows "deduplicated df =
           Inr (names, drop_duplicates
                  (map (\<lambda>(other, cell). (other, map (\<lambda>f. replace_2_1 (digit_value (last (str_strip f))))
                                                    (cell_fields cell))) df))"
proof -
  let ?W = "length names"
  let ?cells = "map snd df"
  let ?g = "\<lambda>cell. case cell of None \<Rightarrow> 0 | Some f \<Rightarrow> digit_value (last (str_strip f))"
  have W1: "1 \<le> ?W"
    using str_split_nonempty [of "CHR '';''" s0] by (cases "str_split (CHR '';'') s0") (auto simp: names)
  have cells: "\<forall>cell \<in> set ?cells. cell \<noteq> None \<and> length (cell_fields cell) = ?W"
    using rows by (fastforce simp: cell_fields_def)
  then have cats: "split_expand ?cells = map (\<lambda>cell. map Some (cell_fields cell)) ?cells"
    using W1 by (rule split_expand_full)
  have cn: "category_colnames (split_expand ?cells) = Inr names"
    using df names rows by (rule category_colnames_first_row)
  let ?pcs = "map (\<lambda>j. (names ! j, map (\<lambda>r. r ! j) (split_expand ?cells))) [0..<?W]"
  have ok: "\<forall>(n, col) \<in> set ?pcs. count_list names n = 1
       \<and> (\<forall>cell \<in> set col. parse_category_value cell = Inr (?g cell))"
  proof (clarsimp, intro conjI ballI)
    fix j assume j: "j < ?W"
    then have "names ! j \<in> set names" by simp
    with dist show "count_list names (names ! j) = Suc 0" by (simp add: distinct_count_list_1)
    fix r assume "r \<in> set (split_expand ?cells)"
    then obtain other cell where in_df: "(other, cell) \<in> set df" and r: "r = map Some (cell_fields cell)"
      by (auto simp: cats)
    from in_df cells have l: "length (cell_fields cell) = ?W" by force
    with j have "cell_fields cell ! j \<in> set (cell_fields cell)" by simp
    with digits in_df have "str_strip (cell_fields cell ! j) \<noteq> [] \<and> is_digit (last (str_strip (cell_fields cell ! j)))"
      by blast
    with j l r show "parse_category_value (r ! j) = Inr (?g (r ! j))"
      by (simp add: parse_category_value_Some)
  qed
  from convert_columns_values [of ?pcs names ?g, OF ok]
  have cc: "convert_columns names ?pcs = Inr (map (\<lambda>(n, col). map ?g col) ?pcs)" .
  have row: "(fst (df ! i), map (\<lambda>c. replace_2_1 (c ! i)) (map (\<lambda>(n, col). map ?g col) ?pcs))
           = (case df ! i of (other, cell) \<Rightarrow>
                (other, map (\<lambda>f. replace_2_1 (digit_value (last (str_strip f)))) (cell_fields cell)))"
    if i: "i < length df" for i
  proof -
    obtain other cell where dfi: "df ! i = (other, cell)" by (cases "df ! i")
    with i have in_df: "(other, cell) \<in> set df" by (metis nth_mem)
    with cells have l: "length (cell_fields cell) = ?W" by force
    have "map (\<lambda>c. replace_2_1 (c ! i)) (map (\<lambda>(n, col). map ?g col) ?pcs)
        = map (\<lambda>j. replace_2_1 (digit_value (last (str_strip (cell_fields cell ! j))))) [0..<?W]"
      using i dfi l by (auto simp: cats)
    also have "\<dots> = map (\<lambda>f. replace_2_1 (digit_value (last (str_strip f)))) (cell_fields cell)"
      using map_nth_all [of "\<lambda>f. replace_2_1 (digit_value (last (str_strip f)))" "cell_fields cell"] l by simp
    finally show ?thesis by (simp add: dfi)
  qed
  have "map (\<lambda>i. (fst (df ! i), map (\<lambda>c. replace_2_1 (c ! i)) (map (\<lambda>(n, col). map ?g col) ?pcs))) [0..<length df]
      = map (\<lambda>i. (\<lambda>(other, cell). (other, map (\<lambda>f. replace_2_1 (digit_value (last (str_strip f)))) (cell_fields cell))) (df ! i)) [0..<length df]"
  proof (rule map_cong [OF refl])
    fix i assume "i \<in> set [0..<length df]"
    then have "i < length df" by simp
    then show "(fst (df ! i), map (\<lambda>c. replace_2_1 (c ! i)) (map (\<lambda>(n, col). map ?g col) ?pcs))
        = (\<lambda>(other, cell). (other, map (\<lambda>f. replace_2_1 (digit_value (last (str_strip f)))) (cell_fields cell))) (df ! i)"
      by (rule row)
  qed
  also have "\<dots> = map (\<lambda>(other, cell). (other, map (\<lambda>f. replace_2_1 (digit_value (last (str_strip f)))) (cell_fields cell))) df"
    by (rule map_nth_all)
  finally show ?thesis
    using cn cc by (simp add: deduplicated_def Let_def)
qed

lemma clean_data_Inr:
  assumes "clean_data df = Inr out"
  shows "\<exists>names rs. deduplicated df = Inr (names, rs) \<and> ''child_alone'' \<in> set names
           \<and> columns out = filter (\<lambda>n. n \<noteq> ''child_alone'') names
           \<and> rows out = map (\<lambda>(other, vs). (other, drop_label ''child_alone'' names vs)) rs"
  using assms by (auto simp: clean_data_def split: sum.splits if_splits)

text \<open>
  Claim C10 says that a field whose last character is not a digit makes \<open>clean_data\<close>
  fail with a conversion error. In the frame below the field \<open>b-x\<close> is such a field, but
  the first row names two columns \<open>a\<close>, and the loop over the columns fails on that label
  with AttributeError before any cell is converted.
\<close>

theorem clean_data_header_error_counterexample:
  "clean_data [(1 :: int, Some ''a-1;a-1;b-x;child_alone-0'')] = Inl AttributeError"
  by code_simp

text \<open>
  Claim C10, amended. A category field is read as the last character of the field stripped
  of surrounding whitespace, converted to an integer: a digit gives its value and anything
  else, an empty field included, raises ValueError. A field that does not end in a digit
  makes \<open>clean_data\<close> fail, with ValueError or with the AttributeError of a defective first
  row. When the first row has a categories cell, the column names it gives are distinct and
  every row has as many fields as the first, the result of \<open>clean_data\<close> is known
  in full: if every field ends in a digit, the frame holds for each field its digit \<open>d\<close>,
  stored as 1 when \<open>d\<close> is 2 (so that \<open>related-10\<close> is read as 0), with duplicates removed
  and the column \<open>child_alone\<close> dropped, or KeyError when no column has that name;
  otherwise the conversion error ValueError.
\<close>

theorem clean_data_parses_last_character:
  "parse_category_value (Some f) =
     (if str_strip f \<noteq> [] \<and> is_digit (last (str_strip f))
      then Inr (digit_value (last (str_strip f))) else Inl ValueError)
   \<and> ((other, Some s) \<in> set df \<and> f \<in> set (str_split (CHR '';'') s)
        \<and> \<not> (str_strip f \<noteq> [] \<and> is_digit (last (str_strip f)))
      \<longrightarrow> clean_data df = Inl ValueError \<or> clean_data df = Inl AttributeError)
   \<and> (df = (other0, Some s0) # rest
        \<and> names = map strip_suffixes (str_split (CHR '';'') s0) \<and> distinct names
        \<and> (\<forall>(other, cell) \<in> set df.
              \<exists>s. cell = Some s \<and> length (str_split (CHR '';'') s) = length names)
      \<longrightarrow> clean_data df =
            (if \<forall>(other, cell) \<in> set df. \<forall>f \<in> set (cell_fields cell).
                  str_strip f \<noteq> [] \<and> is_digit (last (str_strip f))
             then if ''child_alone'' \<in> set names
                  then Inr \<lparr>columns = filter (\<lambda>n. n \<noteq> ''child_alone'') names,
                            rows = map (\<lambda>(other, vs). (other, drop_label ''child_alone'' names vs))
                                     (drop_duplicates
                                        (map (\<lambda>(other, cell).
                                                (other, map (\<lambda>f. replace_2_1 (digit_value (last (str_strip f))))
                                                            (cell_fields cell))) df))\<rparr>
                  else Inl KeyError
             else Inl ValueError))"
proof (intro conjI impI)
  show "parse_category_value (Some f) =
     (if str_strip f \<noteq> [] \<and> is_digit (last (str_strip f))
      then Inr (digit_value (last (str_strip f))) else Inl ValueError)"
    by (rule parse_category_value_Some)
next
  assume h: "(other, Some s) \<in> set df \<and> f \<in> set (str_split (CHR '';'') s)
        \<and> \<not> (str_strip f \<noteq> [] \<and> is_digit (last (str_strip f)))"
  then have bad: "parse_category_value (Some f) = Inl ValueError"
    by (simp add: parse_category_value_Some)
  from h have ne: "df \<noteq> []" by auto
  from h bad obtain e where e: "deduplicated df = Inl e"
    using deduplicated_bad_field [of other s df f] by blast
  from deduplicated_error(1) [OF e ne] e
  show "clean_data df = Inl ValueError \<or> clean_data df = Inl AttributeError"
    by (auto simp: clean_data_def)
next
  assume h: "df = (other0, Some s0) # rest
        \<and> names = map strip_suffixes (str_split (CHR '';'') s0) \<and> distinct names
        \<and> (\<forall>(other, cell) \<in> set df.
              \<exists>s. cell = Some s \<and> length (str_split (CHR '';'') s) = length names)"
  then have df: "df = (other0, Some s0) # rest"
    and names: "names = map strip_suffixes (str_split (CHR '';'') s0)" and dist: "distinct names"
    and rows: "\<forall>(other, cell) \<in> set df. \<exists>s. cell = Some s \<and> length (str_split (CHR '';'') s) = length names"
    by blast+
  show "clean_data df =
            (if \<forall>(other, cell) \<in> set df. \<forall>f \<in> set (cell_fields cell).
                  str_strip f \<noteq> [] \<and> is_digit (last (str_strip f))
             then if ''child_alone'' \<in> set names
                  then Inr \<lparr>columns = filter (\<lambda>n. n \<noteq> ''child_alone'') names,
                            rows = map (\<lambda>(other, vs). (other, drop_label ''child_alone'' names vs))
                                     (drop_duplicates
                                        (map (\<lambda>(other, cell).
                                                (other, map (\<lambda>f. replace_2_1 (digit_value (last (str_strip f))))
                                                            (cell_fields cell))) df))\<rparr>
                  else Inl KeyError
             else Inl ValueError)"
  proof (cases "\<forall>(other, cell) \<in> set df. \<forall>f \<in> set (cell_fields cell).
                  str_strip f \<noteq> [] \<and> is_digit (last (str_strip f))")
    case True
    from deduplicated_values [OF df names dist rows True] True show ?thesis
      by (simp add: clean_data_def)
  next
    case False
    then obtain other cell f' where in_df: "(other, cell) \<in> set df" and f': "f' \<in> set (cell_fields cell)"
      and nd: "\<not> (str_strip f' \<noteq> [] \<and> is_digit (last (str_strip f')))"
      by blast
    from in_df rows obtain s' where cell: "cell = Some s'" by blast
    from nd have bad: "parse_category_value (Some f') = Inl ValueError"
      by (simp add: parse_category_value_Some)
    from in_df f' cell bad obtain e where e: "deduplicated df = Inl e"
      using deduplicated_bad_field [of other s' df f'] by (auto simp: cell_fields_def)
    from df have ne: "df \<noteq> []" by simp
    have "category_colnames (split_expand (map snd df)) = Inr names"
      using df names rows by (rule category_colnames_first_row)
    from deduplicated_error(2) [OF e ne this dist] e False show ?thesis
      by (simp add: clean_data_def)
  qed
qed

text \<open>
  The theorem at a frame with the fields \<open>related-7\<close> (with a trailing blank) and
  \<open>related-10\<close>, and at a frame with the field \<open>related-x\<close>.
\<close>

theorem clean_data_parses_last_character_witness:
  "clean_data [(1 :: int, Some ''related-7 ;child_alone-0''), (2, Some ''related-10;child_alone-2'')]
     = Inr \<lparr>columns = [''related-7 ''], rows = [(1, [7]), (2, [0])]\<rparr>
   \<and> clean_data [(1 :: int, Some ''related-1;child_alone-0''), (2, Some ''related-x;child_alone-0'')]
     = Inl ValueError"
proof -
  have s: "str_split (CHR '';'') ''related-7 ;child_alone-0'' = [''related-7 '', ''child_alone-0'']"
          "str_split (CHR '';'') ''related-10;child_alone-2'' = [''related-10'', ''child_alone-2'']"
          "str_split (CHR '';'') ''related-1;child_alone-0'' = [''related-1'', ''child_alone-0'']"
          "str_split (CHR '';'') ''related-x;child_alone-0'' = [''related-x'', ''child_alone-0'']"
    by code_simp+
  have n: "strip_suffixes ''related-7 '' = ''related-7 ''" "strip_suffixes ''child_alone-0'' = ''child_alone''"
          "strip_suffixes ''related-1'' = ''related''"
    by code_simp+
  have t: "str_strip ''related-7 '' = ''related-7''" "str_strip ''child_alone-0'' = ''child_alone-0''"
          "str_strip ''related-10'' = ''related-10''" "str_strip ''child_alone-2'' = ''child_alone-2''"
          "str_strip ''related-1'' = ''related-1''" "str_strip ''related-x'' = ''related-x''"
    by code_simp+
  have d: "is_digit (CHR ''7'')" "is_digit (CHR ''0'')" "is_digit (CHR ''2'')" "is_digit (CHR ''1'')"
          "\<not> is_digit (CHR ''x'')"
          "digit_value (CHR ''7'') = 7" "digit_value (CHR ''0'') = 0" "digit_value (CHR ''2'') = 2"
    by code_simp+
  have r: "replace_2_1 7 = 7" "replace_2_1 0 = 0" "replace_2_1 2 = 1"
    by (simp_all add: replace_2_1_def)
  have dd: "drop_duplicates [(1 :: int, [7 :: int, 0]), (2, [0, 1])] = [(1, [7, 0]), (2, [0, 1])]"
    by code_simp
  have dl: "drop_label ''child_alone'' [''related-7 '', ''child_alone''] [7 :: int, 0] = [7]"
           "drop_label ''child_alone'' [''related-7 '', ''child_alone''] [0 :: int, 1] = [0]"
    by code_simp+
  have ha: "[(1 :: int, Some ''related-7 ;child_alone-0''), (2, Some ''related-10;child_alone-2'')]
               = (1, Some ''related-7 ;child_alone-0'') # [(2, Some ''related-10;child_alone-2'')]
        \<and> [''related-7 '', ''child_alone''] = map strip_suffixes (str_split (CHR '';'') ''related-7 ;child_alone-0'')
        \<and> distinct [''related-7 '', ''child_alone'']
        \<and> (\<forall>(other, cell) \<in> set [(1 :: int, Some ''related-7 ;child_alone-0''), (2, Some ''related-10;child_alone-2'')].
              \<exists>s. cell = Some s \<and> length (str_split (CHR '';'') s) = length [''related-7 '', ''child_alone''])"
    by (simp add: s n)
  from clean_data_parses_last_character [THEN conjunct2, THEN conjunct2, THEN mp, OF ha]
  have a: "clean_data [(1 :: int, Some ''related-7 ;child_alone-0''), (2, Some ''related-10;child_alone-2'')]
     = Inr \<lparr>columns = [''related-7 ''], rows = [(1, [7]), (2, [0])]\<rparr>"
    by (simp add: s t d r dd dl cell_fields_def)
  have hb: "[(1 :: int, Some ''related-1;child_alone-0''), (2, Some ''related-x;child_alone-0'')]
               = (1, Some ''related-1;child_alone-0'') # [(2, Some ''related-x;child_alone-0'')]
        \<and> [''related'', ''child_alone''] = map strip_suffixes (str_split (CHR '';'') ''related-1;child_alone-0'')
        \<and> distinct [''related'', ''child_alone'']
        \<and> (\<forall>(other, cell) \<in> set [(1 :: int, Some ''related-1;child_alone-0''), (2, Some ''related-x;child_alone-0'')].
              \<exists>s. cell = Some s \<and> length (str_split (CHR '';'') s) = length [''related'', ''child_alone''])"
    by (simp add: s n)
  from clean_data_parses_last_character [THEN conjunct2, THEN conjunct2, THEN mp, OF hb]
  have b: "clean_data [(1 :: int, Some ''related-1;child_alone-0''), (2, Some ''related-x;child_alone-0'')]
     = Inl ValueError"
    by (simp add: s t d cell_fields_def)
  from a b show ?thesis by simp
qed

text \<open>
  Claim C5. A category value other than 0, 1 and 2 is to be rejected, and the comments of
  the source ask for values 0 or 1 only. The value 3 is neither rejected nor corrected: the
  frame below is cleaned without error and keeps the 3.
\<close>

theorem clean_data_keeps_3:
  "clean_data [(1 :: int, Some ''related-1;child_alone-0''), (2, Some ''related-3;child_alone-0'')]
     = Inr \<lparr>columns = [''related''], rows = [(1, [1]), (2, [3])]\<rparr>"
  by code_simp

text \<open>
  Claim C6 says that the output of \<open>clean_data\<close> has no two identical rows. Two rows that
  differ in the column \<open>child_alone\<close> only are both kept by \<open>drop_duplicates\<close>, and are
  identical once that column is dropped.
\<close>

theorem clean_data_identical_rows_counterexample:
  "clean_data [(1 :: int, Some ''related-1;child_alone-0''), (1, Some ''related-1;child_alone-1'')]
     = Inr \<lparr>columns = [''related''], rows = [(1, [1]), (1, [1])]\<rparr>
   \<and> \<not> distinct (rows \<lparr>columns = [''related''], rows = [(1 :: int, [1 :: int]), (1, [1])]\<rparr>)"
  by code_simp

text \<open>
  Claim C6, amended. When \<open>clean_data\<close> returns a frame, it has at most as many rows as
  the input; the rows are pairwise distinct at the point where duplicates are removed,
  that is with the column \<open>child_alone\<close> still present, and the output rows are those rows
  without that column. Hence the output has no two identical rows whenever the rows that
  remain all have the same \<open>child_alone\<close> value.
\<close>

theorem clean_data_rows_distinct_before_drop:
  assumes "clean_data df = Inr out"
  shows "length (rows out) \<le> length df
       \<and> (\<exists>names rs. deduplicated df = Inr (names, rs) \<and> distinct rs
            \<and> rows out = map (\<lambda>(other, vs). (other, drop_label ''child_alone'' names vs)) rs
            \<and> ((\<forall>r \<in> set rs. \<forall>r' \<in> set rs.
                   select_label ''child_alone'' names (snd r) = select_label ''child_alone'' names (snd r'))
                \<longrightarrow> distinct (rows out)))"
proof -
  from clean_data_Inr [OF assms] obtain names rs where
    dd: "deduplicated df = Inr (names, rs)" and
    out: "rows out = map (\<lambda>(other, vs). (other, drop_label ''child_alone'' names vs)) rs"
    by blast
  from deduplicated_Inr [OF dd] obtain cols where
    len: "length cols = length names" and
    rs: "rs = drop_duplicates (map (\<lambda>i. (fst (df ! i), map (\<lambda>c. replace_2_1 (c ! i)) cols)) [0..<length df])"
    by blast
  have d: "distinct rs" by (simp add: rs drop_duplicates_def distinct_drop_duplicates_from)
  have "length rs \<le> length (map (\<lambda>i. (fst (df ! i), map (\<lambda>c. replace_2_1 (c ! i)) cols)) [0..<length df])"
    unfolding rs drop_duplicates_def by (rule length_drop_duplicates_from)
  then have le: "length (rows out) \<le> length df" by (simp add: out)
  have rl: "length (snd r) = length names" if "r \<in> set rs" for r
    using that len by (auto simp: rs drop_duplicates_def set_drop_duplicates_from)
  have "distinct (rows out)"
    if same: "\<forall>r \<in> set rs. \<forall>r' \<in> set rs.
                   select_label ''child_alone'' names (snd r) = select_label ''child_alone'' names (snd r')"
  proof -
    have "inj_on (\<lambda>(other, vs). (other, drop_label ''child_alone'' names vs)) (set rs)"
    proof (rule inj_onI)
      fix r r' assume r: "r \<in> set rs" and r': "r' \<in> set rs"
        and eq: "(case r of (other, vs) \<Rightarrow> (other, drop_label ''child_alone'' names vs))
               = (case r' of (other, vs) \<Rightarrow> (other, drop_label ''child_alone'' names vs))"
      from eq have f: "fst r = fst r'"
        and dl: "drop_label ''child_alone'' names (snd r) = drop_label ''child_alone'' names (snd r')"
        by (auto split: prod.splits)
      from same r r' have "select_label ''child_alone'' names (snd r) = select_label ''child_alone'' names (snd r')"
        by blast
      with dl rl [OF r] rl [OF r'] have "snd r = snd r'" by (blast intro: label_cells_eq)
      with f show "r = r'" by (simp add: prod_eq_iff)
    qed
    with d show ?thesis by (simp add: out distinct_map)
  qed
  with le d dd out show ?thesis by blast
qed

text \<open>The theorem at a frame with a duplicated row and \<open>child_alone\<close> zero throughout.\<close>

theorem clean_data_rows_distinct_before_drop_witness:
  "clean_data [(1 :: int, Some ''related-1;child_alone-0''), (1, Some ''related-1;child_alone-0''),
               (2, Some ''related-0;child_alone-0'')]
     = Inr \<lparr>columns = [''related''], rows = [(1, [1]), (2, [0])]\<rparr>
   \<and> length (rows \<lparr>columns = [''related''], rows = [(1 :: int, [1 :: int]), (2, [0])]\<rparr>) \<le> 3
   \<and> distinct (rows \<lparr>columns = [''related''], rows = [(1 :: int, [1 :: int]), (2, [0])]\<rparr>)"
proof -
  have c: "clean_data [(1 :: int, Some ''related-1;child_alone-0''), (1, Some ''related-1;child_alone-0''),
               (2, Some ''related-0;child_alone-0'')]
     = Inr \<lparr>columns = [''related''], rows = [(1, [1]), (2, [0])]\<rparr>"
    by code_simp
  from clean_data_rows_distinct_before_drop [OF c] c show ?thesis by simp
qed

subsection \<open>\<open>save_data\<close> and \<open>load_data_from_db\<close>\<close>





subsection \<open>\<open>tokenize\<close>\<close>

text \<open>
  Claim C7 says that every substring matching the URL pattern is replaced by the
  placeholder. In the text \<open>http://a http://ab\<close> the pattern matches \<open>http://a\<close> and
  \<open>http://ab\<close>; \<open>text.replace\<close> for the first match also rewrites the start of the second,
  which is then no longer found, so that the text handed to the word tokenizer is
  \<open>urlplaceholder urlplaceholderb\<close> and not \<open>urlplaceholder urlplaceholder\<close>.
\<close>

theorem tokenize_url_prefix_not_replaced:
  "findall_url ''http://a http://ab'' = [''http://a'', ''http://ab'']
   \<and> replace_urls (findall_url ''http://a http://ab'') default_url_placeholder ''http://a http://ab''
       = ''urlplaceholder urlplaceholderb''
   \<and> spec_replace_every_url default_url_placeholder ''http://a http://ab''
       = ''urlplaceholder urlplaceholder''
   \<and> tokenize toy_nltk ''http://a http://ab'' default_url_placeholder
       = [''urlplaceholder'', ''urlplaceholderb'']"
  by code_simp

text \<open>
  The example of the claim: for every tokenizer and lemmatizer, the text that is split
  into words is \<open>Check urlplaceholder now\<close>, and with words separated by blanks the
  placeholder is a token of its own.
\<close>

lemma tokenize_example_url:
  "tokenize nl ''Check http://example.com/path now'' ''urlplaceholder''
     = map (\<lambda>w. str_strip (str_lower (lemmatize nl w))) (word_tokenize nl ''Check urlplaceholder now'')"
proof -
  have "replace_urls (findall_url ''Check http://example.com/path now'') ''urlplaceholder''
          ''Check http://example.com/path now'' = ''Check urlplaceholder now''"
    by code_simp
  then show ?thesis by (simp add: tokenize_def Let_def)
qed

lemma tokenize_example_tokens:
  "tokenize toy_nltk ''Check http://example.com/path now'' default_url_placeholder
     = [''check'', ''urlplaceholder'', ''now'']"
  by code_simp

subsection \<open>\<open>StartingVerbExtractor.starting_verb\<close>\<close>

lemma starting_verb_loop_any:
  "\<forall>s \<in> set sentences. pos_tag nl (tokenize nl s default_url_placeholder) \<noteq> [] \<Longrightarrow>
   starting_verb_loop nl sentences =
     Inr (\<exists>s \<in> set sentences. starts_with_verb (pos_tag nl (tokenize nl s default_url_placeholder)))"
  by (induction sentences) (auto simp: starts_with_verb_def split: list.splits)

text \<open>
  Claim C3 says that the first sentence alone decides the feature. For a message of two
  sentences of which only the second starts with a verb, \<open>starting_verb\<close> is true.
\<close>

theorem starting_verb_first_sentence_counterexample:
  "starting_verb toy_nltk ''Thanks. Send water.'' = Inr True
   \<and> spec_first_sentence_only toy_nltk ''Thanks. Send water.'' = Inr False"
  by code_simp

text \<open>
  Claim C3, amended. When every sentence of the message gives at least one tagged token,
  \<open>starting_verb\<close> returns true if and only if some sentence of the message, the first or a
  later one, has as its first token one tagged VB or VBP, or the token \<open>RT\<close>.
\<close>

theorem starting_verb_any_sentence:
  assumes "\<forall>s \<in> set (sent_tokenize nl text). pos_tag nl (tokenize nl s default_url_placeholder) \<noteq> []"
  shows "starting_verb nl text =
           Inr (\<exists>s \<in> set (sent_tokenize nl text).
                  starts_with_verb (pos_tag nl (tokenize nl s default_url_placeholder)))"
  unfolding starting_verb_def using assms by (rule starting_verb_loop_any)

text \<open>The theorem at the message \<open>Thanks. Send water.\<close>\<close>

theorem starting_verb_any_sentence_witness:
  "sent_tokenize toy_nltk ''Thanks. Send water.'' = [''Thanks.'', '' Send water.'']
   \<and> pos_tag toy_nltk (tokenize toy_nltk ''Thanks.'' default_url_placeholder) = [(''thanks.'', ''NN'')]
   \<and> pos_tag toy_nltk (tokenize toy_nltk '' Send water.'' default_url_placeholder)
       = [(''send'', ''VB''), (''water.'', ''NN'')]
   \<and> starting_verb toy_nltk ''Thanks. Send water.'' = Inr True"
proof -
  have s: "sent_tokenize toy_nltk ''Thanks. Send water.'' = [''Thanks.'', '' Send water.'']"
    by code_simp
  have t1: "pos_tag toy_nltk (tokenize toy_nltk ''Thanks.'' default_url_placeholder) = [(''thanks.'', ''NN'')]"
    by code_simp
  have t2: "pos_tag toy_nltk (tokenize toy_nltk '' Send water.'' default_url_placeholder)
              = [(''send'', ''VB''), (''water.'', ''NN'')]"
    by code_simp
  have h: "\<forall>s \<in> set (sent_tokenize toy_nltk ''Thanks. Send water.'').
             pos_tag toy_nltk (tokenize toy_nltk s default_url_placeholder) \<noteq> []"
    by (simp add: s t1 t2)
  from starting_verb_any_sentence [OF h]
  have "starting_verb toy_nltk ''Thanks. Send water.'' = Inr True"
    by (simp add: s t1 t2 starts_with_verb_def)
  with s t1 t2 show ?thesis by simp
qed




















subsection \<open>\<open>multioutput_fscore\<close>\<close>

lemma score_columns_in_range:
  "\<forall>c \<in> set cs. c < shape1 y_actual \<and> c < shape1 y_estimators \<Longrightarrow>
   score_columns fbeta_score y_actual y_estimators beta cs =
     Inr (map (\<lambda>column. fbeta_score (map (\<lambda>r. r ! column) (elems y_actual))
                                    (map (\<lambda>r. r ! column) (elems y_estimators)) beta) cs)"
  by (induction cs) (auto simp: column_of_def)

lemma filter_below_1: "\<forall>s \<in> set xs. s \<le> (1::real) \<Longrightarrow> filter (\<lambda>s. s < 1) xs = filter (\<lambda>s. s \<noteq> 1) xs"
  by (rule filter_cong) auto

text \<open>
  Claim C1. For arrays of the same shape and a score function bounded by 1, as an F-beta
  score is, \<open>multioutput_fscore\<close> computes one score per label column, removes the scores
  equal to 1 and returns the geometric mean, as \<open>gmean\<close> computes it, of the remaining ones.
\<close>

theorem multioutput_fscore_drops_perfect_scores:
  assumes "well_shaped y_actual" and "well_shaped y_estimators"
    and "shape1 y_estimators = shape1 y_actual"
    and "length (elems y_estimators) = length (elems y_actual)"
    and "\<forall>a p. fbeta_score a p beta \<le> 1"
  shows "multioutput_fscore fbeta_score gmean y_actual y_estimators beta =
           Inr (gmean (filter (\<lambda>score. score \<noteq> 1)
                  (map (\<lambda>column. fbeta_score (map (\<lambda>r. r ! column) (elems y_actual))
                                             (map (\<lambda>r. r ! column) (elems y_estimators)) beta)
                       [0..<shape1 y_actual])))"
proof -
  have "score_columns fbeta_score y_actual y_estimators beta [0..<shape1 y_actual] =
     Inr (map (\<lambda>column. fbeta_score (map (\<lambda>r. r ! column) (elems y_actual))
                                    (map (\<lambda>r. r ! column) (elems y_estimators)) beta) [0..<shape1 y_actual])"
    by (rule score_columns_in_range) (simp add: assms(3))
  moreover have "filter (\<lambda>s. s < 1) (map (\<lambda>column. fbeta_score (map (\<lambda>r. r ! column) (elems y_actual))
                                    (map (\<lambda>r. r ! column) (elems y_estimators)) beta) [0..<shape1 y_actual])
      = filter (\<lambda>s. s \<noteq> 1) (map (\<lambda>column. fbeta_score (map (\<lambda>r. r ! column) (elems y_actual))
                                    (map (\<lambda>r. r ! column) (elems y_estimators)) beta) [0..<shape1 y_actual])"
    by (rule filter_below_1) (use assms(5) in auto)
  ultimately show ?thesis by (simp add: multioutput_fscore_def)
qed

text \<open>The theorem at two arrays of two columns, the first column predicted perfectly.\<close>

theorem multioutput_fscore_drops_perfect_scores_witness:
  "multioutput_fscore (\<lambda>a p beta. if a = p then 1 else 1 / 2) (\<lambda>scores. scores)
     \<lparr>shape1 = 2, elems = [[0, 1], [1, 1 :: int]]\<rparr> \<lparr>shape1 = 2, elems = [[0, 1], [0, 1]]\<rparr> 1
   = Inr [1 / 2]"
proof -
  have "multioutput_fscore (\<lambda>a p beta. if a = p then 1 else 1 / 2) (\<lambda>scores. scores)
     \<lparr>shape1 = 2, elems = [[0, 1], [1, 1 :: int]]\<rparr> \<lparr>shape1 = 2, elems = [[0, 1], [0, 1]]\<rparr> 1
   = Inr (filter (\<lambda>score. score \<noteq> 1)
                  (map (\<lambda>column. (\<lambda>a p beta. if a = p then 1 else 1 / 2) (map (\<lambda>r. r ! column) (elems \<lparr>shape1 = 2, elems = [[0, 1], [1, 1 :: int]]\<rparr>))
                                             (map (\<lambda>r. r ! column) (elems \<lparr>shape1 = 2, elems = [[0, 1], [0, 1 :: int]]\<rparr>)) (1::real))
                       [0..<shape1 \<lparr>shape1 = 2, elems = [[0, 1], [1, 1 :: int]]\<rparr>]))"
    by (rule multioutput_fscore_drops_perfect_scores) (simp_all add: well_shaped_def)
  also have "\<dots> = Inr [1 / 2]"
    by (simp add: upt_rec)
  finally show ?thesis .
qed

text \<open>
  Claim C2 says that an explicit degenerate-result condition is reported when every column
  scores 1. For two equal arrays the function returns normally, with what \<open>gmean\<close> (here
  the identity, to show its argument) makes of the empty list.
\<close>

theorem multioutput_fscore_no_report_counterexample:
  "multioutput_fscore (\<lambda>a p beta. if a = p then 1 else 1 / 2) (\<lambda>scores. scores)
     \<lparr>shape1 = 2, elems = [[0, 1], [1, 1 :: int]]\<rparr> \<lparr>shape1 = 2, elems = [[0, 1], [1, 1]]\<rparr> 1
   = Inr []
   \<and> \<not> isl (multioutput_fscore (\<lambda>a p beta. if a = p then 1 else 1 / 2) (\<lambda>scores. scores)
              \<lparr>shape1 = 2, elems = [[0, 1], [1, 1 :: int]]\<rparr> \<lparr>shape1 = 2, elems = [[0, 1], [1, 1]]\<rparr> 1)"
  by code_simp

text \<open>
  Claim C2, amended. When every column scores 1, \<open>multioutput_fscore\<close> does not raise and
  has no case of its own: it returns, as its ordinary result, whatever \<open>gmean\<close> returns
  for the empty list of scores, and reports no condition.
\<close>

theorem multioutput_fscore_all_perfect:
  assumes "shape1 y_estimators = shape1 y_actual"
    and "\<forall>column < shape1 y_actual.
           fbeta_score (map (\<lambda>r. r ! column) (elems y_actual))
                       (map (\<lambda>r. r ! column) (elems y_estimators)) beta = 1"
  shows "multioutput_fscore fbeta_score gmean y_actual y_estimators beta = Inr (gmean [])
       \<and> \<not> isl (multioutput_fscore fbeta_score gmean y_actual y_estimators beta)"
proof -
  have "score_columns fbeta_score y_actual y_estimators beta [0..<shape1 y_actual] =
     Inr (map (\<lambda>column. fbeta_score (map (\<lambda>r. r ! column) (elems y_actual))
                                    (map (\<lambda>r. r ! column) (elems y_estimators)) beta) [0..<shape1 y_actual])"
    by (rule score_columns_in_range) (simp add: assms(1))
  moreover have "filter (\<lambda>s. s < 1) (map (\<lambda>column. fbeta_score (map (\<lambda>r. r ! column) (elems y_actual))
                                    (map (\<lambda>r. r ! column) (elems y_estimators)) beta) [0..<shape1 y_actual]) = []"
    using assms(2) by (auto simp: filter_empty_conv)
  ultimately show ?thesis by (simp add: multioutput_fscore_def)
qed

text \<open>The theorem at two equal arrays.\<close>

theorem multioutput_fscore_all_perfect_witness:
  "multioutput_fscore (\<lambda>a p beta. if a = p then 1 else 1 / 2) (\<lambda>scores. scores)
     \<lparr>shape1 = 2, elems = [[0, 1], [1, 1 :: int]]\<rparr> \<lparr>shape1 = 2, elems = [[0, 1], [1, 1]]\<rparr> 1
   = Inr []"
proof -
  have h1: "shape1 \<lparr>shape1 = 2, elems = [[0, 1], [1, 1 :: int]]\<rparr> = shape1 \<lparr>shape1 = 2, elems = [[0, 1], [1, 1 :: int]]\<rparr>"
    by simp
  have h2: "\<forall>column < shape1 \<lparr>shape1 = 2, elems = [[0, 1], [1, 1 :: int]]\<rparr>.
           (\<lambda>a p beta. if a = p then 1 else 1 / 2) (map (\<lambda>r. r ! column) (elems \<lparr>shape1 = 2, elems = [[0, 1], [1, 1 :: int]]\<rparr>))
                       (map (\<lambda>r. r ! column) (elems \<lparr>shape1 = 2, elems = [[0, 1], [1, 1 :: int]]\<rparr>)) (1 :: real) = (1 :: real)"
    by simp
  from multioutput_fscore_all_perfect [of "\<lparr>shape1 = 2, elems = [[0, 1], [1, 1 :: int]]\<rparr>" _ "\<lambda>a p beta. if a = p then 1 else 1 / 2" 1 "\<lambda>scores. scores", OF h1 h2]
  show ?thesis by simp
qed

end
